theory Spec2Isabelle
  imports Main
begin

section \<open>Shared constants (lib/constants.js)\<close>

definition MAX_STRING_LENGTH :: int where
  "MAX_STRING_LENGTH = 200"

definition MAX_OBJECT_DEPTH :: int where
  "MAX_OBJECT_DEPTH = 3"

definition MAX_OBJECT_KEYS :: nat where
  "MAX_OBJECT_KEYS = 20"

definition MAX_ARRAY_LENGTH :: nat where
  "MAX_ARRAY_LENGTH = 10"

section \<open>Character case\<close>

text \<open>\<open>toUpperCase\<close> and \<open>toLowerCase\<close> on ASCII letters.\<close>

definition upper_char :: "char \<Rightarrow> char" where
  "upper_char c = (let n = of_char c :: nat in if 97 \<le> n \<and> n \<le> 122 then char_of (n - 32) else c)"

definition lower_char :: "char \<Rightarrow> char" where
  "lower_char c = (let n = of_char c :: nat in if 65 \<le> n \<and> n \<le> 90 then char_of (n + 32) else c)"

definition toUpperCase :: "string \<Rightarrow> string" where
  "toUpperCase s = map upper_char s"

definition toLowerCase :: "string \<Rightarrow> string" where
  "toLowerCase s = map lower_char s"

section \<open>Runtime values and the heap\<close>

text \<open>
  Arrays and plain objects live in a heap and are referred to by address, so that a
  value can contain itself (\<open>a.self = a\<close>).  The other categories the sanitizer
  distinguishes carry just what the sanitizer reads from them: a function its
  \<open>name\<close>, a Date the outcome of \<open>toISOString()\<close> (\<open>None\<close> for an invalid
  Date, on which \<open>toISOString\<close> throws a RangeError), a RegExp its \<open>toString()\<close>,
  an Error its \<open>message\<close>, an Element its \<open>tagName\<close>.  \<open>VOther\<close> is a symbol or a
  bigint, given by its \<open>String(value)\<close>.  Numbers are passed through untouched by the
  code, so an integer stands for them.
\<close>

type_synonym addr = nat

datatype jsval =
    VNull
  | VUndefined
  | VStr string
  | VNum int
  | VBool bool
  | VFunction string
  | VDate "string option"
  | VRegExp string
  | VError string
  | VElement string
  | VRef addr
  | VOther string

text \<open>Reading \<open>obj[key]\<close> yields a value, or throws (a getter on a stale reference).\<close>

datatype slot = Field jsval | GetterThrows

text \<open>
  An object is the list of its own enumerable string-keyed properties in the order
  \<open>Object.keys\<close> enumerates them (keys pairwise distinct).
\<close>

datatype hobj = HArray "jsval list" | HObject "(string \<times> slot) list"

type_synonym heap = "addr \<Rightarrow> hobj"

datatype js_error = RangeError

text \<open>
  What the sanitizer returns: a tree.  \<open>SLive\<close> is a host value handed back as it is
  (the early return of \<open>sanitizeObject\<close> on a non-object).
\<close>

datatype sval =
    SNull
  | SUndefined
  | SStr string
  | SNum int
  | SBool bool
  | SArr "sval list"
  | SObj "(string \<times> sval) list"
  | SLive jsval

section \<open>String helpers\<close>

definition digit_char :: "nat \<Rightarrow> char" where
  "digit_char n = ''0123456789'' ! (n mod 10)"

fun show_nat :: "nat \<Rightarrow> string" where
  "show_nat n = (if n < 10 then [digit_char n] else show_nat (n div 10) @ [digit_char n])"

declare show_nat.simps [simp del]

definition startsWith :: "string \<Rightarrow> string \<Rightarrow> bool" where
  "startsWith s p = (take (length p) s = p)"

text \<open>\<open>s.substring(0, n)\<close>: a negative \<open>n\<close> counts as 0.\<close>

definition substring0 :: "string \<Rightarrow> int \<Rightarrow> string" where
  "substring0 s n = take (nat n) s"

section \<open>Bounded sanitizer (lib/shared-utils.js, sanitizeValue and sanitizeObject)\<close>

text \<open>
  \<open>result[key] = v\<close> on an object under construction.  The list keeps the properties
  in the order they were created; the order in which an engine enumerates them later
  (integer-like keys first) is not part of the model.
\<close>

fun set_prop :: "string \<Rightarrow> 'v \<Rightarrow> (string \<times> 'v) list \<Rightarrow> (string \<times> 'v) list" where
  "set_prop k v [] = [(k, v)]"
| "set_prop k v (e # es) = (if fst e = k then (k, v) # es else e # set_prop k v es)"

text \<open>\<open>Array.prototype.map\<close> with a callback that may throw: the first throw wins.\<close>

fun collect :: "(js_error + sval) list \<Rightarrow> js_error + sval list" where
  "collect [] = Inr []"
| "collect (Inl e # rs) = Inl e"
| "collect (Inr v # rs) = (case collect rs of Inl e \<Rightarrow> Inl e | Inr vs \<Rightarrow> Inr (v # vs))"

text \<open>\<open>!obj || typeof obj !== 'object'\<close>\<close>

fun not_an_object :: "jsval \<Rightarrow> bool" where
  "not_an_object VNull = True"
| "not_an_object VUndefined = True"
| "not_an_object (VStr s) = True"
| "not_an_object (VNum n) = True"
| "not_an_object (VBool b) = True"
| "not_an_object (VFunction f) = True"
| "not_an_object (VOther s) = True"
| "not_an_object (VDate d) = False"
| "not_an_object (VRegExp r) = False"
| "not_an_object (VError m) = False"
| "not_an_object (VElement t) = False"
| "not_an_object (VRef a) = False"

text \<open>A value returned as it is.\<close>

fun as_is :: "jsval \<Rightarrow> sval" where
  "as_is VNull = SNull"
| "as_is VUndefined = SUndefined"
| "as_is (VStr s) = SStr s"
| "as_is (VNum n) = SNum n"
| "as_is (VBool b) = SBool b"
| "as_is v = SLive v"

text \<open>
  \<open>Object.keys(obj)\<close> paired with what reading each key gives.  An array enumerates
  its indices; Dates, RegExps, Errors and Elements are taken without own enumerable
  properties.
\<close>

fun own_props :: "heap \<Rightarrow> jsval \<Rightarrow> (string \<times> slot) list" where
  "own_props h (VRef a) =
     (case h a of
        HObject ps \<Rightarrow> ps
      | HArray xs \<Rightarrow> map (\<lambda>i. (show_nat i, Field (xs ! i))) [0..<length xs])"
| "own_props h v = []"

function sanitizeValue :: "heap \<Rightarrow> jsval \<Rightarrow> int \<Rightarrow> int \<Rightarrow> js_error + sval"
  and sanitizeObject :: "heap \<Rightarrow> jsval \<Rightarrow> int \<Rightarrow> int \<Rightarrow> sval" where
  "sanitizeValue h v depth maxStringLength =
     (if depth \<le> 0 then Inr (SStr ''[max depth]'')
      else case v of
        VNull \<Rightarrow> Inr SNull
      | VUndefined \<Rightarrow> Inr SUndefined
      | VStr s \<Rightarrow>
          Inr (SStr (if int (length s) > maxStringLength
                     then substring0 s maxStringLength @ ''...'' else s))
      | VNum n \<Rightarrow> Inr (SNum n)
      | VBool b \<Rightarrow> Inr (SBool b)
      | VFunction name \<Rightarrow>
          Inr (SStr (''[Function: '' @ (if name = [] then ''anonymous'' else name) @ '']''))
      | VDate t \<Rightarrow> (case t of None \<Rightarrow> Inl RangeError | Some s \<Rightarrow> Inr (SStr s))
      | VRegExp r \<Rightarrow> Inr (SStr r)
      | VError msg \<Rightarrow> Inr (SStr (''[Error: '' @ msg @ '']''))
      | VElement tag \<Rightarrow> Inr (SStr (''[Element: '' @ toLowerCase tag @ '']''))
      | VRef a \<Rightarrow>
          (case h a of
             HArray xs \<Rightarrow>
               if length xs > MAX_ARRAY_LENGTH
               then Inr (SStr (''[Array('' @ show_nat (length xs) @ '')]''))
               else (case collect (map (\<lambda>x. sanitizeValue h x (depth - 1) maxStringLength)
                                       (take MAX_ARRAY_LENGTH xs)) of
                       Inl e \<Rightarrow> Inl e
                     | Inr rs \<Rightarrow> Inr (SArr rs))
           | HObject ps \<Rightarrow> Inr (sanitizeObject h v (depth - 1) maxStringLength))
      | VOther s \<Rightarrow> Inr (SStr s))"
| "sanitizeObject h obj depth maxStringLength =
     (if depth \<le> 0 then SStr ''[max depth]''
      else if not_an_object obj then as_is obj
      else
        let all_keys = own_props h obj;
            limited = length all_keys > MAX_OBJECT_KEYS;
            keys = (if limited then take MAX_OBJECT_KEYS all_keys else all_keys);
            result = (if limited
                      then [(''...'', SStr (''('' @ show_nat (length all_keys - MAX_OBJECT_KEYS)
                                            @ '' more keys)''))]
                      else [])
        in SObj (foldl
             (\<lambda>res kp.
                if startsWith (fst kp) ''__'' \<or> startsWith (fst kp) ''$$'' then res
                else set_prop (fst kp)
                       (case snd kp of
                          GetterThrows \<Rightarrow> SStr ''[Error reading property]''
                        | Field x \<Rightarrow>
                            (case sanitizeValue h x depth maxStringLength of
                               Inl e \<Rightarrow> SStr ''[Error reading property]''
                             | Inr r \<Rightarrow> r))
                       res)
             result keys))"
  by pat_completeness auto

termination
  by (relation "measure (\<lambda>x. case x of
                   Inl (h, v, d, m) \<Rightarrow> 2 * nat d
                 | Inr (h, v, d, m) \<Rightarrow> 2 * nat d + 1)") auto

declare sanitizeValue.simps [simp del] sanitizeObject.simps [simp del]

text \<open>The heap after \<open>let a = {}; a.self = a\<close>, with \<open>a\<close> at address 0.\<close>

definition self_heap :: heap where
  "self_heap = (\<lambda>_. HObject [])(0 := HObject [(''self'', Field (VRef 0))])"

section \<open>Measures on sanitized results\<close>

text \<open>Nesting depth: 0 for a scalar, one more than the deepest member for a container.\<close>

fun nesting :: "sval \<Rightarrow> nat" where
  "nesting (SArr xs) = Suc (foldr max (map nesting xs) 0)"
| "nesting (SObj kvs) = Suc (foldr max (map (\<lambda>kv. nesting (snd kv)) kvs) 0)"
| "nesting v = 0"

text \<open>
  A result is JSON-serializable when it is a finite tree of JSON scalars, arrays and
  objects that holds no live host value.
\<close>

fun json_serializable :: "sval \<Rightarrow> bool" where
  "json_serializable (SArr xs) = list_all json_serializable xs"
| "json_serializable (SObj kvs) = list_all (\<lambda>kv. json_serializable (snd kv)) kvs"
| "json_serializable (SLive v) = False"
| "json_serializable v = True"

text \<open>
  An object with 21 own keys, the first of which is named \<open>...\<close>:
  \<open>{"...": 0, k1: 1, ..., k20: 20}\<close>, at address 0.
\<close>

definition dots_heap :: heap where
  "dots_heap = (\<lambda>_. HObject [])
     (0 := HObject ((''...'', Field (VNum 0))
                    # map (\<lambda>i. (''k'' @ show_nat i, Field (VNum (int i)))) [1..<21]))"

text \<open>The array \<open>[new Date(NaN)]\<close>, at address 0.\<close>

definition date_heap :: heap where
  "date_heap = (\<lambda>_. HObject [])(0 := HArray [VDate None])"

section \<open>Ring buffers\<close>

text \<open>\<open>log.push(e); if (log.length > cap) log.shift();\<close>\<close>

definition push_shift :: "nat \<Rightarrow> 'a list \<Rightarrow> 'a \<Rightarrow> 'a list" where
  "push_shift cap log e = (let log' = log @ [e] in if length log' > cap then tl log' else log')"

section \<open>Session recorder (lib/session-recorder.js, the injected page script)\<close>

definition MAX_ENTRIES :: nat where
  "MAX_ENTRIES = 200"

definition MAX_BODY :: nat where
  "MAX_BODY = 5000"

record console_entry =
  ce_type :: string
  ce_message :: string
  ce_stack :: "string option"
  ce_timestamp :: int
  ce_source :: "string option"
  ce_line :: "int option"

record network_entry =
  ne_url :: string
  ne_method :: string
  ne_status :: int
  ne_requestBody :: "string option"
  ne_responseBody :: "string option"
  ne_duration :: int
  ne_timestamp :: int
  ne_failed :: bool
  ne_error :: "string option"

text \<open>
  An interaction record, with the extras that input and submit events carry (\<open>None\<close> for
  a field the record does not have).
\<close>

record interaction =
  i_type :: string
  i_target :: string
  i_timestamp :: "int option"
  i_label :: "string option"
  i_value :: "string option"
  i_formData :: "(string \<times> string) list option"
  i_action :: "string option"

record snapshot =
  sn_label :: string
  sn_timestamp :: int
  sn_url :: string
  sn_localStorage :: "(string \<times> string) list"
  sn_sessionStorage :: "(string \<times> string) list"

text \<open>
  What an array of the session holds.  Console entries, interactions and snapshots are
  never written to once they are pushed, so they are held by value.  A network entry
  made by the \<open>fetch\<close> wrapper is written to after it was pushed (its \<open>responseBody\<close>,
  when the read of the cloned response settles), so network entries are objects in a
  store and the array holds references to them.
\<close>

datatype entry =
    Console console_entry
  | Network nat
  | Interaction interaction
  | Snapshot snapshot

text \<open>
  The session object holds references to its four arrays, and \<open>stop\<close> hands the same
  references out in the object it returns, so the arrays are kept in a store.
\<close>

record session =
  isRecording :: bool
  sessionId :: "string option"
  startTime :: "int option"
  endTime :: "int option"
  consoleLog :: addr
  networkLog :: addr
  interactions :: addr
  snapshots :: addr

record stopped_session =
  ss_sessionId :: "string option"
  ss_startTime :: "int option"
  ss_endTime :: int
  ss_duration :: int
  ss_consoleLog :: addr
  ss_networkLog :: addr
  ss_interactions :: addr
  ss_snapshots :: addr

text \<open>What the closures of an instrumented \<open>fetch\<close> call have captured.\<close>

record fetch_ctx =
  fc_url :: string
  fc_method :: string
  fc_requestBody :: "string option"
  fc_startTime :: int

text \<open>
  What the closure of one \<open>loadend\<close> listener has captured, and an \<open>XMLHttpRequest\<close>
  object as the recorder sees it: the two properties the \<open>open\<close> wrapper sets on it, and
  the listeners the \<open>send\<close> wrapper has added to it, in the order they were added.  A
  listener is never removed.
\<close>

record xhr_listener =
  xl_requestBody :: "string option"
  xl_startTime :: int

record xhr_object =
  sessionMethod :: "string option"
  sessionUrl :: "string option"
  listeners :: "xhr_listener list"

text \<open>
  The page: the session object; the store of arrays with its allocation pointer; the
  store of network entry objects (a reference is an index into it); the instrumented
  \<open>fetch\<close> calls that have not settled (call number and captured context); the reads of
  cloned responses that have not settled (call number and the entry to write to); and
  the \<open>XMLHttpRequest\<close> objects the wrappers have touched (object number and object).
\<close>

record page =
  session :: session
  arrays :: "addr \<Rightarrow> entry list"
  fresh :: addr
  objects :: "network_entry list"
  fetches :: "(nat \<times> fetch_ctx) list"
  reads :: "(nat \<times> nat) list"
  xhrs :: "(nat \<times> xhr_object) list"

text \<open>The page right after the script is injected.\<close>

definition injected :: page where
  "injected = \<lparr> session = \<lparr> isRecording = False, sessionId = None, startTime = None,
                              endTime = None, consoleLog = 0, networkLog = 1,
                              interactions = 2, snapshots = 3 \<rparr>,
                 arrays = (\<lambda>_. []), fresh = 4, objects = [],
                 fetches = [], reads = [], xhrs = [] \<rparr>"

text \<open>The network entries an array refers to, in the order of the array.\<close>

definition entries_of :: "page \<Rightarrow> addr \<Rightarrow> network_entry list" where
  "entries_of p a =
     concat (map (\<lambda>e. case e of Network r \<Rightarrow> [objects p ! r] | _ \<Rightarrow> []) (arrays p a))"

text \<open>Removing the first pending item with a given number.\<close>

fun take_out :: "nat \<Rightarrow> (nat \<times> 'a) list \<Rightarrow> (nat \<times> 'a) list" where
  "take_out k [] = []"
| "take_out k (e # es) = (if fst e = k then es else e # take_out k es)"

text \<open>An object literal for a network entry: a new object in the store.\<close>

definition new_object :: "network_entry \<Rightarrow> page \<Rightarrow> nat \<times> page" where
  "new_object e p = (length (objects p), p\<lparr> objects := objects p @ [e] \<rparr>)"

definition push :: "addr \<Rightarrow> entry \<Rightarrow> page \<Rightarrow> page" where
  "push a e p = p\<lparr> arrays := (arrays p)(a := arrays p a @ [e]) \<rparr>"

definition push_and_shift :: "nat \<Rightarrow> addr \<Rightarrow> entry \<Rightarrow> page \<Rightarrow> page" where
  "push_and_shift cap a e p = p\<lparr> arrays := (arrays p)(a := push_shift cap (arrays p a) e) \<rparr>"

text \<open>
  \<open>captureConsole(type, args)\<close>: \<open>msg\<close> is \<open>formatArgs(args)\<close> and \<open>stk\<close> the stack
  the function derives (from \<open>new Error()\<close> or from \<open>args[0]\<close>), before truncation.
\<close>

definition captureConsole :: "int \<Rightarrow> string \<Rightarrow> string \<Rightarrow> string option \<Rightarrow> page \<Rightarrow> page" where
  "captureConsole now type msg stk p =
     (if \<not> isRecording (session p) then p
      else push_and_shift MAX_ENTRIES (consoleLog (session p))
             (Console \<lparr> ce_type = type, ce_message = take 2000 msg,
                         ce_stack = (case stk of None \<Rightarrow> None
                                     | Some s \<Rightarrow> if s = [] then None else Some (take 1000 s)),
                         ce_timestamp = now, ce_source = None, ce_line = None \<rparr>) p)"

text \<open>The \<open>window\<close> listener for \<open>error\<close> events.\<close>

definition on_window_error ::
  "int \<Rightarrow> string \<Rightarrow> string option \<Rightarrow> string option \<Rightarrow> int option \<Rightarrow> page \<Rightarrow> page" where
  "on_window_error now msg stk src line p =
     (if \<not> isRecording (session p) then p
      else push (consoleLog (session p))
             (Console \<lparr> ce_type = ''error'',
                         ce_message = (if msg = [] then ''Unknown error'' else msg),
                         ce_stack = stk, ce_timestamp = now,
                         ce_source = src, ce_line = line \<rparr>) p)"

text \<open>The \<open>window\<close> listener for \<open>unhandledrejection\<close> events.\<close>

datatype reason = NoReason | ReasonError string "string option" | ReasonString string | ReasonOther

definition on_unhandledrejection :: "int \<Rightarrow> reason \<Rightarrow> page \<Rightarrow> page" where
  "on_unhandledrejection now r p =
     (if \<not> isRecording (session p) then p
      else
        let message = (case r of
                         ReasonError m s \<Rightarrow> if m = [] then ''Unhandled Promise Rejection'' else m
                       | ReasonString s \<Rightarrow> if s = [] then ''Unhandled Promise Rejection'' else s
                       | _ \<Rightarrow> ''Unhandled Promise Rejection'');
            stack = (case r of ReasonError m s \<Rightarrow> s | _ \<Rightarrow> None)
        in push (consoleLog (session p))
             (Console \<lparr> ce_type = ''error'', ce_message = ''[Promise] '' @ message,
                         ce_stack = stack, ce_timestamp = now,
                         ce_source = None, ce_line = None \<rparr>) p)"

text \<open>
  The \<open>fetch\<close> wrapper; \<open>url\<close> and \<open>method\<close> are what it resolves from \<open>input\<close> and
  \<open>init\<close>.  A request body is a string or something else; \<open>response.ok\<close> is the
  platform's flag, true exactly for a status from 200 to 299.
\<close>

datatype body = StringBody string | OtherBody

definition capture_body :: "body option \<Rightarrow> string option" where
  "capture_body b = (case b of
       None \<Rightarrow> None
     | Some (StringBody s) \<Rightarrow> if s = [] then None else Some (take MAX_BODY s)
     | Some OtherBody \<Rightarrow> Some ''[Binary/FormData]'')"

definition response_ok :: "int \<Rightarrow> bool" where
  "response_ok status = (200 \<le> status \<and> status \<le> 299)"

datatype fetch_outcome = Resolved int | Rejected string

text \<open>The call itself: not recording means the original \<open>fetch\<close> runs uninstrumented.\<close>

definition fetch_call :: "int \<Rightarrow> nat \<Rightarrow> string \<Rightarrow> string \<Rightarrow> body option \<Rightarrow> page \<Rightarrow> page" where
  "fetch_call now rid url method b p =
     (if \<not> isRecording (session p) then p
      else p\<lparr> fetches := fetches p @ [(rid, \<lparr> fc_url = url, fc_method = method,
                                               fc_requestBody = capture_body b,
                                               fc_startTime = now \<rparr>)] \<rparr>)"

text \<open>
  The \<open>.then\<close> and \<open>.catch\<close> continuations of an instrumented call.  They push the
  entry whatever \<open>isRecording\<close> is by then.  The \<open>.then\<close> continuation also starts the
  read of the cloned response, whose own continuation keeps the entry.
\<close>

definition fetch_then_entry :: "int \<Rightarrow> fetch_ctx \<Rightarrow> int \<Rightarrow> network_entry" where
  "fetch_then_entry now c status =
     \<lparr> ne_url = take 500 (fc_url c), ne_method = toUpperCase (fc_method c),
       ne_status = status, ne_requestBody = fc_requestBody c,
       ne_responseBody = None, ne_duration = now - fc_startTime c,
       ne_timestamp = fc_startTime c, ne_failed = (\<not> response_ok status),
       ne_error = None \<rparr>"

definition fetch_then :: "int \<Rightarrow> nat \<Rightarrow> fetch_ctx \<Rightarrow> int \<Rightarrow> page \<Rightarrow> page" where
  "fetch_then now rid c status p =
     (let (entry, p1) = new_object (fetch_then_entry now c status) p;
          p2 = p1\<lparr> reads := reads p1 @ [(rid, entry)] \<rparr>
      in push_and_shift 100 (networkLog (session p2)) (Network entry) p2)"

definition fetch_catch_entry :: "int \<Rightarrow> fetch_ctx \<Rightarrow> string \<Rightarrow> network_entry" where
  "fetch_catch_entry now c msg =
     \<lparr> ne_url = take 500 (fc_url c), ne_method = toUpperCase (fc_method c),
       ne_status = 0, ne_requestBody = fc_requestBody c,
       ne_responseBody = None, ne_duration = now - fc_startTime c,
       ne_timestamp = fc_startTime c, ne_failed = True,
       ne_error = Some msg \<rparr>"

definition fetch_catch :: "int \<Rightarrow> fetch_ctx \<Rightarrow> string \<Rightarrow> page \<Rightarrow> page" where
  "fetch_catch now c msg p =
     (let (entry, p1) = new_object (fetch_catch_entry now c msg) p
      in push (networkLog (session p1)) (Network entry) p1)"

definition fetch_settle :: "int \<Rightarrow> nat \<Rightarrow> fetch_outcome \<Rightarrow> page \<Rightarrow> page" where
  "fetch_settle now rid out p =
     (case map_of (fetches p) rid of
        None \<Rightarrow> p
      | Some c \<Rightarrow>
          let p' = p\<lparr> fetches := take_out rid (fetches p) \<rparr>
          in (case out of
                Resolved status \<Rightarrow> fetch_then now rid c status p'
              | Rejected msg \<Rightarrow> fetch_catch now c msg p'))"

text \<open>
  The read of the cloned response settles: with the text, which is cut and written
  into the entry wherever the entry is by then, or with a failure, which is swallowed.
\<close>

definition fetch_body :: "nat \<Rightarrow> string option \<Rightarrow> page \<Rightarrow> page" where
  "fetch_body rid txt p =
     (case map_of (reads p) rid of
        None \<Rightarrow> p
      | Some entry \<Rightarrow>
          let p' = p\<lparr> reads := take_out rid (reads p) \<rparr>
          in (case txt of
                None \<Rightarrow> p'
              | Some t \<Rightarrow>
                  p'\<lparr> objects := (objects p')
                        [entry := (objects p' ! entry)\<lparr> ne_responseBody := Some (take MAX_BODY t) \<rparr>] \<rparr>))"

text \<open>
  The \<open>XMLHttpRequest.prototype.open\<close> wrapper stores its first two arguments on the
  object, recording or not.
\<close>

definition new_xhr :: xhr_object where
  "new_xhr = \<lparr> sessionMethod = None, sessionUrl = None, listeners = [] \<rparr>"

definition xhr_of :: "page \<Rightarrow> nat \<Rightarrow> xhr_object" where
  "xhr_of p x = (case map_of (xhrs p) x of None \<Rightarrow> new_xhr | Some obj \<Rightarrow> obj)"

definition set_xhr :: "nat \<Rightarrow> xhr_object \<Rightarrow> page \<Rightarrow> page" where
  "set_xhr x obj p = p\<lparr> xhrs := (x, obj) # filter (\<lambda>e. fst e \<noteq> x) (xhrs p) \<rparr>"

definition xhr_open :: "nat \<Rightarrow> string option \<Rightarrow> string option \<Rightarrow> page \<Rightarrow> page" where
  "xhr_open x method url p =
     set_xhr x ((xhr_of p x)\<lparr> sessionMethod := method, sessionUrl := url \<rparr>) p"

text \<open>
  The \<open>XMLHttpRequest.prototype.send\<close> wrapper: while recording, every call adds one
  more \<open>loadend\<close> listener to the object; otherwise it only calls the original \<open>send\<close>.
\<close>

definition xhr_send :: "int \<Rightarrow> nat \<Rightarrow> body option \<Rightarrow> page \<Rightarrow> page" where
  "xhr_send now x b p =
     (if \<not> isRecording (session p) then p
      else set_xhr x ((xhr_of p x)\<lparr> listeners := listeners (xhr_of p x)
                         @ [\<lparr> xl_requestBody = capture_body b, xl_startTime = now \<rparr>] \<rparr>) p)"

definition or_else :: "string option \<Rightarrow> string \<Rightarrow> string" where
  "or_else x d = (case x of None \<Rightarrow> d | Some s \<Rightarrow> if s = [] then d else s)"

text \<open>
  One \<open>loadend\<close> listener running: it reads the URL, the method, the status and the
  response text from the object as they are now, and the request body and the start
  time from its closure, and pushes whatever \<open>isRecording\<close> is.
\<close>

definition xhr_loadend_entry ::
  "int \<Rightarrow> xhr_object \<Rightarrow> xhr_listener \<Rightarrow> int \<Rightarrow> string \<Rightarrow> network_entry" where
  "xhr_loadend_entry now xhr l status responseText =
     \<lparr> ne_url = take 500 (or_else (sessionUrl xhr) []),
       ne_method = toUpperCase (or_else (sessionMethod xhr) ''GET''),
       ne_status = status, ne_requestBody = xl_requestBody l,
       ne_responseBody = (if responseText = [] then None
                          else Some (take MAX_BODY responseText)),
       ne_duration = now - xl_startTime l,
       ne_timestamp = xl_startTime l,
       ne_failed = (status = 0 \<or> status \<ge> 400),
       ne_error = None \<rparr>"

definition loadend_listener ::
  "int \<Rightarrow> xhr_object \<Rightarrow> int \<Rightarrow> string \<Rightarrow> xhr_listener \<Rightarrow> page \<Rightarrow> page" where
  "loadend_listener now xhr status responseText l p =
     (let (entry, p1) = new_object (xhr_loadend_entry now xhr l status responseText) p
      in push_and_shift 100 (networkLog (session p1)) (Network entry) p1)"

text \<open>
  A \<open>loadend\<close> event on an object runs every listener the object carries, in the order
  they were added; it comes once for every \<open>send\<close> that ends, instrumented or not.
\<close>

fun dispatch ::
  "int \<Rightarrow> xhr_object \<Rightarrow> int \<Rightarrow> string \<Rightarrow> xhr_listener list \<Rightarrow> page \<Rightarrow> page" where
  "dispatch now xhr status responseText [] p = p"
| "dispatch now xhr status responseText (l # ls) p =
     dispatch now xhr status responseText ls (loadend_listener now xhr status responseText l p)"

definition xhr_loadend :: "int \<Rightarrow> nat \<Rightarrow> int \<Rightarrow> string \<Rightarrow> page \<Rightarrow> page" where
  "xhr_loadend now x status responseText p =
     dispatch now (xhr_of p x) status responseText (listeners (xhr_of p x)) p"

text \<open>The session control functions.\<close>

definition digit36 :: "nat \<Rightarrow> char" where
  "digit36 n = ''0123456789abcdefghijklmnopqrstuvwxyz'' ! (n mod 36)"

fun toString36 :: "nat \<Rightarrow> string" where
  "toString36 n = (if n < 36 then [digit36 n] else toString36 (n div 36) @ [digit36 n])"

declare toString36.simps [simp del]

definition AI_CONTEXT_START_SESSION ::
  "int \<Rightarrow> string option \<Rightarrow> string option \<Rightarrow> page \<Rightarrow> string \<times> page" where
  "AI_CONTEXT_START_SESSION now sid stk p =
     (let ident = or_else sid (toString36 (nat now));
          a = fresh p;
          p1 = p\<lparr> session := (session p)\<lparr> isRecording := True, sessionId := Some ident,
                                            startTime := Some now, consoleLog := a,
                                            networkLog := a + 1, interactions := a + 2,
                                            snapshots := a + 3 \<rparr>,
                   arrays := (\<lambda>x. if x \<in> {a, a + 1, a + 2, a + 3} then [] else arrays p x),
                   fresh := a + 4 \<rparr>
      in (ident, captureConsole now ''info''
                   (''[AI Context] Recording session started: '' @ ident) stk p1))"

definition AI_CONTEXT_STOP_SESSION ::
  "int \<Rightarrow> string option \<Rightarrow> page \<Rightarrow> stopped_session \<times> page" where
  "AI_CONTEXT_STOP_SESSION now stk p =
     (let p1 = p\<lparr> session := (session p)\<lparr> isRecording := False, endTime := Some now \<rparr> \<rparr>;
          p2 = captureConsole now ''info'' ''[AI Context] Recording session stopped'' stk p1;
          s = session p2
      in (\<lparr> ss_sessionId = sessionId s, ss_startTime = startTime s, ss_endTime = now,
            ss_duration = now - (case startTime s of None \<Rightarrow> 0 | Some t \<Rightarrow> t),
            ss_consoleLog = consoleLog s, ss_networkLog = networkLog s,
            ss_interactions = interactions s, ss_snapshots = snapshots s \<rparr>, p2))"

definition storage_entries :: "(string \<times> string) list \<Rightarrow> (string \<times> string) list" where
  "storage_entries st = filter (\<lambda>kv. snd kv \<noteq> [] \<and> length (snd kv) < 1000) st"

definition AI_CONTEXT_TAKE_SNAPSHOT ::
  "int \<Rightarrow> string option \<Rightarrow> string option \<Rightarrow> string
     \<Rightarrow> (string \<times> string) list \<Rightarrow> (string \<times> string) list \<Rightarrow> page \<Rightarrow> snapshot option \<times> page" where
  "AI_CONTEXT_TAKE_SNAPSHOT now label stk href local sess p =
     (if \<not> isRecording (session p) then (None, p)
      else
        let s = \<lparr> sn_label = or_else label
                               (''Snapshot '' @ show_nat (length (arrays p (snapshots (session p))) + 1)),
                   sn_timestamp = now, sn_url = href,
                   sn_localStorage = storage_entries local,
                   sn_sessionStorage = storage_entries sess \<rparr>;
            p1 = push (snapshots (session p)) (Snapshot s) p
        in (Some s, captureConsole now ''info'' (''[AI Context] Snapshot taken: '' @ sn_label s) stk p1))"

definition AI_CONTEXT_ADD_INTERACTION :: "int \<Rightarrow> interaction \<Rightarrow> page \<Rightarrow> page" where
  "AI_CONTEXT_ADD_INTERACTION now i p =
     (if \<not> isRecording (session p) then p
      else push_and_shift 500 (interactions (session p))
             (Interaction (i\<lparr> i_timestamp :=
                 (case i_timestamp i of None \<Rightarrow> Some now
                  | Some t \<Rightarrow> if t = 0 then Some now else Some t) \<rparr>)) p)"

text \<open>
  Everything that can happen to the page, one handler invocation each, with the clock
  reading of that invocation.  A \<open>fetch\<close> call is named by a number, which its settling
  and the settling of its body read repeat; an \<open>XMLHttpRequest\<close> object is named by a
  number, which the calls on it and its \<open>loadend\<close> events repeat.
\<close>

datatype event =
    ConsoleCall string string "string option"
  | WindowError string "string option" "string option" "int option"
  | UnhandledRejection reason
  | FetchCall nat string string "body option"
  | FetchSettle nat fetch_outcome
  | FetchBody nat "string option"
  | XhrOpen nat "string option" "string option"
  | XhrSend nat "body option"
  | XhrLoadend nat int string
  | AddInteraction interaction
  | TakeSnapshot "string option" "string option" string "(string \<times> string) list" "(string \<times> string) list"
  | StartSession "string option" "string option"
  | StopSession "string option"

fun step :: "page \<Rightarrow> int \<times> event \<Rightarrow> page" where
  "step p (now, ConsoleCall type msg stk) = captureConsole now type msg stk p"
| "step p (now, WindowError msg stk src line) = on_window_error now msg stk src line p"
| "step p (now, UnhandledRejection r) = on_unhandledrejection now r p"
| "step p (now, FetchCall rid url method b) = fetch_call now rid url method b p"
| "step p (now, FetchSettle rid out) = fetch_settle now rid out p"
| "step p (now, FetchBody rid txt) = fetch_body rid txt p"
| "step p (now, XhrOpen x method url) = xhr_open x method url p"
| "step p (now, XhrSend x b) = xhr_send now x b p"
| "step p (now, XhrLoadend x status txt) = xhr_loadend now x status txt p"
| "step p (now, AddInteraction i) = AI_CONTEXT_ADD_INTERACTION now i p"
| "step p (now, TakeSnapshot label stk href local sess) =
     snd (AI_CONTEXT_TAKE_SNAPSHOT now label stk href local sess p)"
| "step p (now, StartSession sid stk) = snd (AI_CONTEXT_START_SESSION now sid stk p)"
| "step p (now, StopSession stk) = snd (AI_CONTEXT_STOP_SESSION now stk p)"

definition run :: "page \<Rightarrow> (int \<times> event) list \<Rightarrow> page" where
  "run p evs = foldl step p evs"

section \<open>Always-on capture (Safari content.js, initConsoleCapture and initNetworkCapture)\<close>

definition MAX_CONSOLE_ENTRIES :: nat where
  "MAX_CONSOLE_ENTRIES = 50"

definition MAX_NETWORK_ENTRIES :: nat where
  "MAX_NETWORK_ENTRIES = 50"

record log_entry =
  le_type :: string
  le_message :: string
  le_stack :: "string option"
  le_timestamp :: int
  le_url :: string
  le_source :: "string option"
  le_line :: "int option"

text \<open>
  The three ways an entry reaches \<open>window.__AI_CONTEXT_CONSOLE_LOG__\<close>: a patched
  \<open>console.error\<close> or \<open>console.warn\<close> (with the joined message and the derived stack),
  a \<open>window\<close> error event, an unhandled rejection.
\<close>

datatype console_event =
    Captured string string "string option"
  | ErrorEvent string "string option" "string option" "int option"
  | RejectionEvent reason

definition console_entry_of :: "string \<Rightarrow> int \<times> console_event \<Rightarrow> log_entry" where
  "console_entry_of href ev =
     (case snd ev of
        Captured type msg stk \<Rightarrow>
          \<lparr> le_type = type, le_message = take 2000 msg,
            le_stack = map_option (take 3000) stk, le_timestamp = fst ev, le_url = href,
            le_source = None, le_line = None \<rparr>
      | ErrorEvent msg stk src line \<Rightarrow>
          \<lparr> le_type = ''error'', le_message = (if msg = [] then ''Unknown error'' else msg),
            le_stack = stk, le_timestamp = fst ev, le_url = href,
            le_source = src, le_line = line \<rparr>
      | RejectionEvent r \<Rightarrow>
          \<lparr> le_type = ''error'',
            le_message = ''[Promise] '' @
              (case r of
                 ReasonError m s \<Rightarrow> if m = [] then ''Unhandled Promise Rejection'' else m
               | ReasonString s \<Rightarrow> if s = [] then ''Unhandled Promise Rejection'' else s
               | _ \<Rightarrow> ''Unhandled Promise Rejection''),
            le_stack = (case r of ReasonError m s \<Rightarrow> s | _ \<Rightarrow> None),
            le_timestamp = fst ev, le_url = href, le_source = None, le_line = None \<rparr>)"

text \<open>Each of the three handlers pushes its entry and shifts when over the cap.\<close>

definition console_capture :: "string \<Rightarrow> log_entry list \<Rightarrow> int \<times> console_event \<Rightarrow> log_entry list" where
  "console_capture href log ev = push_shift MAX_CONSOLE_ENTRIES log (console_entry_of href ev)"

record net_entry =
  n_url :: string
  n_method :: string
  n_status :: int
  n_statusText :: string
  n_duration :: int
  n_failed :: bool
  n_type :: string
  n_timestamp :: int

definition addNetworkEntry :: "net_entry list \<Rightarrow> net_entry \<Rightarrow> net_entry list" where
  "addNetworkEntry log e =
     push_shift MAX_NETWORK_ENTRIES log
       (if length (n_url e) > 500 then e\<lparr> n_url := take 500 (n_url e) @ ''...'' \<rparr> else e)"

text \<open>
  The entries the \<open>fetch\<close> wrapper hands to \<open>addNetworkEntry\<close> when the promise
  resolves and when it rejects, and the one the XHR \<open>loadend\<close> listener hands over.
\<close>

definition always_on_fetch_then ::
  "string \<Rightarrow> string \<Rightarrow> int \<Rightarrow> string \<Rightarrow> int \<Rightarrow> int \<Rightarrow> net_entry" where
  "always_on_fetch_then url method status statusText duration now =
     \<lparr> n_url = url, n_method = toUpperCase method, n_status = status,
       n_statusText = statusText, n_duration = duration,
       n_failed = (\<not> response_ok status), n_type = ''fetch'', n_timestamp = now \<rparr>"

definition always_on_fetch_catch :: "string \<Rightarrow> string \<Rightarrow> string \<Rightarrow> int \<Rightarrow> int \<Rightarrow> net_entry" where
  "always_on_fetch_catch url method msg duration now =
     \<lparr> n_url = url, n_method = toUpperCase method, n_status = 0,
       n_statusText = (if msg = [] then ''Network Error'' else msg), n_duration = duration,
       n_failed = True, n_type = ''fetch'', n_timestamp = now \<rparr>"

definition always_on_xhr_loadend ::
  "string \<Rightarrow> string \<Rightarrow> int \<Rightarrow> string \<Rightarrow> int \<Rightarrow> int \<Rightarrow> net_entry" where
  "always_on_xhr_loadend url method status statusText duration now =
     \<lparr> n_url = url, n_method = method, n_status = status,
       n_statusText = statusText, n_duration = duration,
       n_failed = (status = 0 \<or> status \<ge> 400), n_type = ''xhr'', n_timestamp = now \<rparr>"


section \<open>Always-on capture (Chrome network-capture.js, the PerformanceObserver)\<close>

text \<open>
  The entry the observer adds for a resource of initiator type \<open>xmlhttprequest\<close> or
  \<open>fetch\<close> that it does not find in the log: \<open>responseStatus\<close> is \<open>None\<close> where the
  platform does not report it.
\<close>

record resource_entry =
  r_url :: string
  r_method :: string
  r_status :: int
  r_duration :: int
  r_failed :: bool
  r_type :: string
  r_timestamp :: int

definition observer_entry :: "string \<Rightarrow> int option \<Rightarrow> int \<Rightarrow> string \<Rightarrow> int \<Rightarrow> resource_entry" where
  "observer_entry name responseStatus duration initiatorType now =
     \<lparr> r_url = name, r_method = ''UNKNOWN'',
       r_status = (case responseStatus of None \<Rightarrow> 0 | Some status \<Rightarrow> status),
       r_duration = duration, r_failed = False, r_type = initiatorType,
       r_timestamp = now \<rparr>"





text \<open>
  A page on which a session was started and one \<open>fetch\<close> was called (request 1) that has
  not settled yet.
\<close>

definition fetch_pending :: page where
  "fetch_pending = run injected [(10, StartSession None None),
                                 (11, FetchCall 1 ''/api/items'' ''get'' None)]"


text \<open>
  A page on which a session was started and one \<open>XMLHttpRequest\<close> (object 1) was opened,
  sent and answered, so that no request is in flight.
\<close>

definition xhr_done :: page where
  "xhr_done = run injected [(10, StartSession None None),
                            (11, XhrOpen 1 (Some ''get'') (Some ''/api/items'')),
                            (12, XhrSend 1 None),
                            (13, XhrLoadend 1 200 ''[]'')]"

text \<open>
  A page on which a session was started and one \<open>fetch\<close> (request 1) has resolved,
  while the read of its cloned response has not settled yet.
\<close>

definition body_pending :: page where
  "body_pending = run injected [(10, StartSession None None),
                                (11, FetchCall 1 ''/api/items'' ''get'' None),
                                (12, FetchSettle 1 (Resolved 200))]"



definition kept_from :: "network_entry list \<Rightarrow> page \<Rightarrow> bool" where
  "kept_from os p =
     (take (length os) (objects p) = os \<and> list_all (\<lambda>e. length os \<le> snd e) (reads p))"
section \<open>Interaction recorder (lib/interaction-recorder.js): input and submit capture\<close>

text \<open>
  \<open>/w1|w2|.../i.test(s)\<close>: some alternative occurs in \<open>s\<close>, letter case ignored.  The
  alternatives are lower-case ASCII words, so it is enough to lower the ASCII letters
  of \<open>s\<close>.
\<close>

fun str_includes :: "string \<Rightarrow> string \<Rightarrow> bool" where
  "str_includes [] w = (w = [])"
| "str_includes (c # cs) w = (startsWith (c # cs) w \<or> str_includes cs w)"

definition test_words :: "string list \<Rightarrow> string \<Rightarrow> bool" where
  "test_words ws s = list_ex (str_includes (toLowerCase s)) ws"

text \<open>The pattern of the input listener and the pattern of the submit listener.\<close>

definition input_pattern :: "string list" where
  "input_pattern = [''email'', ''phone'', ''ssn'', ''credit'', ''card'', ''cvv'', ''pin'']"

definition submit_pattern :: "string list" where
  "submit_pattern = [''email'', ''phone'', ''ssn'', ''credit'', ''card'']"

text \<open>
  A form control as the listeners read it; \<open>f_selector\<close> and \<open>f_label\<close> stand for what
  \<open>getSelector\<close> and \<open>getElementLabel\<close> derive for it.
\<close>

record field =
  f_type :: string
  f_name :: string
  f_id :: string
  f_value :: string
  f_selector :: string
  f_label :: "string option"

definition formatInteraction ::
  "int \<Rightarrow> string \<Rightarrow> string \<Rightarrow> string option \<Rightarrow> interaction" where
  "formatInteraction now type selector label =
     \<lparr> i_type = type, i_target = selector, i_timestamp = Some now, i_label = label,
       i_value = None, i_formData = None, i_action = None \<rparr>"

text \<open>
  The input listener: nothing for a password field; otherwise the debounce timer, when it
  fires, reads the value, truncates it, masks it and records the interaction.
\<close>

definition input_value :: "field \<Rightarrow> string" where
  "input_value target =
     (let value = f_value target;
          value = (if length value > 100 then take 97 value @ ''...'' else value);
          isSensitive = (test_words input_pattern (f_name target)
                         \<or> test_words input_pattern (f_id target))
      in if isSensitive \<and> value \<noteq> [] then ''[masked]'' else value)"

definition input_interaction :: "int \<Rightarrow> field \<Rightarrow> interaction option" where
  "input_interaction now target =
     (if f_type target = ''password'' then None
      else Some ((formatInteraction now ''input'' (f_selector target) (f_label target))
                   \<lparr> i_value := Some (input_value target) \<rparr>))"

definition on_input :: "int \<Rightarrow> field \<Rightarrow> page \<Rightarrow> page" where
  "on_input now target p =
     (case input_interaction now target of
        None \<Rightarrow> p
      | Some i \<Rightarrow> AI_CONTEXT_ADD_INTERACTION now i p)"

text \<open>
  The submit listener, for a target that is a \<open>FORM\<close>: \<open>fm_fields\<close> are its inputs,
  selects and textareas in document order.
\<close>

record form =
  fm_selector :: string
  fm_label :: "string option"
  fm_action :: string
  fm_fields :: "field list"

definition submit_value :: "field \<Rightarrow> string" where
  "submit_value input =
     (let value = f_value input;
          value = (if value \<noteq> [] \<and> length value > 50 then take 47 value @ ''...'' else value)
      in if test_words submit_pattern (f_name input) \<and> value \<noteq> [] then ''[masked]''
         else value)"

definition collect_formData :: "field list \<Rightarrow> (string \<times> string) list" where
  "collect_formData inputs =
     foldl (\<lambda>formData input.
              if f_name input \<noteq> [] \<and> f_type input \<noteq> ''password''
              then set_prop (f_name input) (submit_value input) formData
              else formData)
           [] inputs"

definition submit_interaction :: "int \<Rightarrow> form \<Rightarrow> interaction" where
  "submit_interaction now target =
     (let formData = collect_formData (fm_fields target);
          i = (formatInteraction now ''submit'' (fm_selector target) (fm_label target))
                \<lparr> i_formData := (if formData = [] then None else Some formData) \<rparr>
      in if fm_action target \<noteq> [] then i\<lparr> i_action := Some (take 200 (fm_action target)) \<rparr>
         else i)"

definition on_submit :: "int \<Rightarrow> form \<Rightarrow> page \<Rightarrow> page" where
  "on_submit now target p = AI_CONTEXT_ADD_INTERACTION now (submit_interaction now target) p"

text \<open>
  \<open><input id="contact" name="email">\<close> holding \<open>a@b.com\<close>, and a form whose only control
  is \<open><input id="code" name="cvv">\<close> holding \<open>123\<close>.  The form has no \<open>action\<close>
  attribute, so its \<open>action\<close> property reads as the URL of the document.
\<close>

definition email_field :: field where
  "email_field = \<lparr> f_type = ''text'', f_name = ''email'', f_id = ''contact'',
                    f_value = ''a@b.com'', f_selector = ''#contact'', f_label = None \<rparr>"

definition cvv_field :: field where
  "cvv_field = \<lparr> f_type = ''text'', f_name = ''cvv'', f_id = ''code'', f_value = ''123'',
                  f_selector = ''#code'', f_label = None \<rparr>"

definition checkout_form :: form where
  "checkout_form = \<lparr> fm_selector = ''form'', fm_label = None,
                      fm_action = ''https://shop.example/checkout'',
                      fm_fields = [cvv_field] \<rparr>"

section \<open>Developer context (Safari content.js, extractElementData)\<close>

record component_info =
  c_name :: "string option"
  c_props :: "sval option"
  c_state :: "sval option"
  c_file :: "string option"

text \<open>
  What \<open>JSON.parse\<close> makes of the \<open>data-ai-context\<close> attribute: a syntax error, \<open>null\<close>,
  some other non-object, or an object, given by its \<open>component\<close> and its \<open>file\<close>, the
  two properties the code reads (strings when present, as the SDK writes them).
\<close>

datatype parsed =
    SyntaxError
  | JNull
  | JOther
  | JObject "string option" "string option"

definition truthy :: "string option \<Rightarrow> bool" where
  "truthy x = (case x of None \<Rightarrow> False | Some s \<Rightarrow> s \<noteq> [])"

text \<open>
  The block that runs when the attribute is present.  \<open>found\<close> is \<open>data.component\<close>
  (\<open>None\<close> when \<open>getComponentInfo\<close> threw and left it \<open>null\<close>); the result is
  \<open>data.developerContext\<close> (\<open>None\<close> for \<open>null\<close>) and \<open>data.component\<close>.  Every throw in
  the block is caught by its \<open>try\<close>.
\<close>

definition apply_developer_context ::
  "parsed \<Rightarrow> component_info option \<Rightarrow> parsed option \<times> component_info option" where
  "apply_developer_context ctx found =
     (case ctx of
        SyntaxError \<Rightarrow> (None, found)
      | JNull \<Rightarrow> (None, found)
      | JOther \<Rightarrow> (Some ctx, found)
      | JObject c f \<Rightarrow>
          (case found of
             None \<Rightarrow> (Some ctx, None)
           | Some ci \<Rightarrow>
               let ci1 = (if truthy c \<and> \<not> truthy (c_name ci) then ci\<lparr> c_name := c \<rparr> else ci);
                   ci2 = (if truthy f then ci1\<lparr> c_file := f \<rparr> else ci1)
               in (Some ctx, Some ci2)))"

text \<open>A component that introspection has named and located.\<close>

definition detected_component :: component_info where
  "detected_component = \<lparr> c_name = Some ''UserCard'', c_props = None, c_state = None,
                            c_file = Some ''/home/dev/app/src/UserCard.jsx'' \<rparr>"

section \<open>Element locator: getCssSelector\<close>

text \<open>
  A document is the tree of its elements, rooted at the \<open>html\<close> element; an element is
  addressed by the child indices leading to it from the root, so that its
  \<open>parentElement\<close> is the path without its last index.  Only element children matter
  to the code (\<open>firstElementChild\<close>, \<open>nextElementSibling\<close>, \<open>children\<close>).
\<close>

datatype element = Element (tagName: string) (el_id: string) (className: string)
                           (children: "element list")

type_synonym path = "nat list"

fun node_at :: "element \<Rightarrow> path \<Rightarrow> element option" where
  "node_at e [] = Some e"
| "node_at e (i # p) = (if i < length (children e) then node_at (children e ! i) p else None)"






subsection \<open>The shared getCssSelector (lib/shared-utils.js)\<close>





subsection \<open>The content script's getCssSelector (Safari content.js)\<close>










subsection \<open>Looking an element up by id\<close>

text \<open>All element paths of a document in document order.\<close>

fun paths_of :: "element \<Rightarrow> path list"
  and paths_from :: "nat \<Rightarrow> element list \<Rightarrow> path list" where
  "paths_of (Element t i c ks) = [] # paths_from 0 ks"
| "paths_from k [] = []"
| "paths_from k (e # es) = map ((#) k) (paths_of e) @ paths_from (Suc k) es"





section \<open>Properties of the bounded sanitizer\<close>

text \<open>
  Claim C10.  String sanitization is idempotent: sanitizing a string \<open>s\<close> of any
  length gives a string \<open>t\<close>, and sanitizing \<open>t\<close> again with the same parameters
  gives \<open>t\<close> back.  This holds for every depth and every \<open>maxStringLength\<close>, in
  particular for the defaults \<open>MAX_OBJECT_DEPTH\<close> and \<open>MAX_STRING_LENGTH\<close>.
\<close>

theorem sanitize_string_idempotent:
  "\<exists>t. sanitizeValue h (VStr s) depth maxStringLength = Inr (SStr t)
       \<and> sanitizeValue h (VStr t) depth maxStringLength = Inr (SStr t)"
proof (cases "depth \<le> 0")
  case True
  then show ?thesis by (simp add: sanitizeValue.simps)
next
  case False
  show ?thesis
  proof (cases "int (length s) > maxStringLength")
    case long: True
    let ?t = "substring0 s maxStringLength @ ''...''"
    have len: "int (length ?t) > maxStringLength"
      using long by (auto simp: substring0_def)
    have "substring0 ?t maxStringLength = substring0 s maxStringLength"
      using long by (auto simp: substring0_def)
    with len long False show ?thesis by (simp add: sanitizeValue.simps)
  next
    case short: False
    with False show ?thesis by (simp add: sanitizeValue.simps)
  qed
qed

text \<open>
  Claim C2, as stated: sanitizing the self-referential object at depth 3 gives three
  nested \<open>self\<close> levels.  \<open>sanitizeValue\<close> does not return that.
\<close>

theorem self_reference_depth3_counterexample:
  "sanitizeValue self_heap (VRef 0) 3 200
     \<noteq> Inr (SObj [(''self'', SObj [(''self'', SObj [(''self'', SStr ''[max depth]'')])])])"
  by (simp add: sanitizeValue.simps sanitizeObject.simps self_heap_def MAX_OBJECT_KEYS_def
        startsWith_def)

text \<open>
  Claim C2, amended.  \<open>sanitizeValue(a, 3)\<close> returns
  \<open>{self: {self: "[max depth]"}}\<close>, two nested levels: \<open>sanitizeValue\<close> lowers the
  depth before it delegates to \<open>sanitizeObject\<close>, which tests the depth again.  The
  three-level result is what \<open>sanitizeObject(a, 3)\<close>, called directly, returns.
\<close>

theorem self_reference_depth3:
  "sanitizeValue self_heap (VRef 0) 3 200
     = Inr (SObj [(''self'', SObj [(''self'', SStr ''[max depth]'')])])
   \<and> sanitizeObject self_heap (VRef 0) 3 200
     = SObj [(''self'', SObj [(''self'', SObj [(''self'', SStr ''[max depth]'')])])]"
  by (simp add: sanitizeValue.simps sanitizeObject.simps self_heap_def MAX_OBJECT_KEYS_def
        startsWith_def)

subsection \<open>Termination, depth bound and normal return\<close>

text \<open>
  \<open>sanitizeValue\<close> and \<open>sanitizeObject\<close> are total functions on every heap, cyclic
  ones included: the depth strictly decreases from \<open>sanitizeValue\<close> to its recursive
  calls and is handed on unchanged from \<open>sanitizeObject\<close> to \<open>sanitizeValue\<close>
  (see the termination proof).  The lemmas below bound the result.
\<close>

lemma collect_Inr: "collect rs = Inr vs \<Longrightarrow> rs = map Inr vs"
proof (induction rs arbitrary: vs)
  case Nil
  then show ?case by simp
next
  case (Cons r rs)
  then show ?case
    by (cases r) (auto split: sum.splits)
qed

lemma foldr_max_le:
  "(\<And>x. x \<in> set xs \<Longrightarrow> f x \<le> (n::nat)) \<Longrightarrow> foldr max (map f xs) 0 \<le> n"
  by (induction xs) auto

lemma set_prop_cases:
  "kv \<in> set (set_prop k v es) \<Longrightarrow> kv = (k, v) \<or> kv \<in> set es"
  by (induction es) (auto split: if_splits)

lemma foldl_set_prop_values:
  assumes "\<And>kv. kv \<in> set init \<Longrightarrow> P (snd kv)"
    and "\<And>kp. kp \<in> set keys \<Longrightarrow> \<not> skip kp \<Longrightarrow> P (g kp)"
    and "kv \<in> set (foldl (\<lambda>res kp. if skip kp then res else set_prop (fst kp) (g kp) res) init keys)"
  shows "P (snd kv)"
  using assms
proof (induction keys arbitrary: init)
  case Nil
  then show ?case by simp
next
  case (Cons kp keys)
  show ?case
  proof (rule Cons.IH[of "if skip kp then init else set_prop (fst kp) (g kp) init"])
    fix e assume "e \<in> set (if skip kp then init else set_prop (fst kp) (g kp) init)"
    then show "P (snd e)"
      using Cons.prems(1)[of e] Cons.prems(2)[of kp] set_prop_cases[of e "fst kp" "g kp" init]
      by (cases "skip kp") auto
  next
    fix kp' assume "kp' \<in> set keys" "\<not> skip kp'"
    then show "P (g kp')" using Cons.prems(2) by simp
  next
    show "kv \<in> set (foldl (\<lambda>res kp. if skip kp then res else set_prop (fst kp) (g kp) res)
                 (if skip kp then init else set_prop (fst kp) (g kp) init) keys)"
      using Cons.prems(3) by simp
  qed
qed

text \<open>
  Whenever \<open>sanitizeValue\<close> returns, the result is JSON-serializable and nests at
  most \<open>depth\<close> levels (no level at all for \<open>depth \<le> 0\<close>).  \<open>sanitizeObject\<close>
  called directly may nest one level more, since it hands its own depth on to the values.
\<close>

lemma sanitize_bounded:
  "sanitizeValue h v d m = Inr r \<Longrightarrow> nesting r \<le> nat d \<and> json_serializable r"
  "\<not> not_an_object obj \<Longrightarrow>
     nesting (sanitizeObject h obj d m) \<le> (if d \<le> 0 then 0 else Suc (nat d))
     \<and> json_serializable (sanitizeObject h obj d m)"
proof (induction h v d m and h obj d m arbitrary: r rule: sanitizeValue_sanitizeObject.induct)
  case (1 h v depth maxStringLength)
  show ?case
  proof (cases "depth \<le> 0")
    case True
    with "1.prems" show ?thesis by (auto simp: sanitizeValue.simps)
  next
    case pos: False
    note unf = sanitizeValue.simps[of h _ depth maxStringLength]
    show ?thesis
    proof (cases v)
      case (VRef a)
      show ?thesis
      proof (cases "h a")
        case (HArray xs)
        show ?thesis
        proof (cases "length xs > MAX_ARRAY_LENGTH")
          case True
          with "1.prems" pos VRef HArray show ?thesis by (auto simp: unf)
        next
          case False
          from "1.prems" pos VRef HArray False obtain rs where
            rs: "collect (map (\<lambda>x. sanitizeValue h x (depth - 1) maxStringLength)
                   (take MAX_ARRAY_LENGTH xs)) = Inr rs" and r: "r = SArr rs"
            by (auto simp: unf split: sum.splits)
          have each: "nesting y \<le> nat (depth - 1) \<and> json_serializable y" if "y \<in> set rs" for y
          proof -
            from collect_Inr[OF rs] that
            obtain x where "x \<in> set (take MAX_ARRAY_LENGTH xs)"
              and "sanitizeValue h x (depth - 1) maxStringLength = Inr y"
              by (metis (no_types, lifting) imageE image_eqI list.set_map)
            then show ?thesis
              using "1.IH"(1)[OF pos VRef HArray False] by blast
          qed
          have "foldr max (map nesting rs) 0 \<le> nat (depth - 1)"
            by (rule foldr_max_le) (use each in blast)
          moreover have "list_all json_serializable rs"
            using each by (simp add: list_all_iff)
          ultimately show ?thesis using r pos by auto
        qed
      next
        case (HObject ps)
        have "\<not> not_an_object v" using VRef by simp
        from "1.IH"(2)[OF pos VRef HObject this] "1.prems" pos VRef HObject
        show ?thesis by (auto simp: unf split: if_splits)
      qed
    qed (use "1.prems" pos in \<open>auto simp: unf split: option.splits if_splits\<close>)
  qed
next
  case (2 h obj depth maxStringLength)
  show ?case
  proof (cases "depth \<le> 0")
    case True
    then show ?thesis by (simp add: sanitizeObject.simps)
  next
    case pos: False
    define all_keys where "all_keys = own_props h obj"
    define limited where "limited = (length all_keys > MAX_OBJECT_KEYS)"
    define keys where "keys = (if limited then take MAX_OBJECT_KEYS all_keys else all_keys)"
    define result where "result = (if limited
                      then [(''...'', SStr (''('' @ show_nat (length all_keys - MAX_OBJECT_KEYS)
                                            @ '' more keys)''))]
                      else [])"
    define skip where "skip = (\<lambda>kp::string \<times> slot. startsWith (fst kp) ''__'' \<or> startsWith (fst kp) ''$$'')"
    define g where "g = (\<lambda>kp::string \<times> slot. case snd kp of
                          GetterThrows \<Rightarrow> SStr ''[Error reading property]''
                        | Field x \<Rightarrow>
                            (case sanitizeValue h x depth maxStringLength of
                               Inl e \<Rightarrow> SStr ''[Error reading property]''
                             | Inr r \<Rightarrow> r))"
    define al where "al = foldl (\<lambda>res kp. if skip kp then res else set_prop (fst kp) (g kp) res) result keys"
    have eq: "sanitizeObject h obj depth maxStringLength = SObj al"
      using pos "2.prems"
      unfolding al_def g_def skip_def result_def keys_def limited_def all_keys_def
      by (simp add: sanitizeObject.simps Let_def)
    have vals: "nesting (snd kv) \<le> nat depth \<and> json_serializable (snd kv)" if "kv \<in> set al" for kv
    proof (rule foldl_set_prop_values[where P = "\<lambda>v. nesting v \<le> nat depth \<and> json_serializable v"
          and init = result and keys = keys and skip = skip and g = g])
      show "kv \<in> set (foldl (\<lambda>res kp. if skip kp then res else set_prop (fst kp) (g kp) res) result keys)"
        using that by (simp add: al_def)
    next
      fix e assume "e \<in> set result"
      then show "nesting (snd e) \<le> nat depth \<and> json_serializable (snd e)"
        by (auto simp: result_def split: if_splits)
    next
      fix kp assume kp: "kp \<in> set keys" "\<not> skip kp"
      show "nesting (g kp) \<le> nat depth \<and> json_serializable (g kp)"
      proof (cases "snd kp")
        case GetterThrows
        then show ?thesis by (simp add: g_def)
      next
        case (Field x)
        show ?thesis
        proof (cases "sanitizeValue h x depth maxStringLength")
          case (Inl e)
          with Field show ?thesis by (simp add: g_def)
        next
          case (Inr y)
          have "nesting y \<le> nat depth \<and> json_serializable y"
            using "2.IH"[OF pos "2.prems" refl refl refl refl, of kp x y] kp Field Inr
            unfolding keys_def limited_def all_keys_def skip_def by blast
          with Field Inr show ?thesis by (simp add: g_def)
        qed
      qed
    qed
    have "foldr max (map (\<lambda>kv. nesting (snd kv)) al) 0 \<le> nat depth"
      by (rule foldr_max_le) (use vals in blast)
    moreover have "list_all (\<lambda>kv. json_serializable (snd kv)) al"
      using vals by (simp add: list_all_iff)
    ultimately show ?thesis using eq pos by simp
  qed
qed

text \<open>
  The only throw that escapes \<open>sanitizeValue\<close> is \<open>toISOString\<close> on an invalid Date
  met outside a plain object (inside one, the per-key \<open>try/catch\<close> absorbs it).
\<close>

lemma collect_all_Inr:
  "(\<And>r. r \<in> set rs \<Longrightarrow> \<exists>v. r = Inr v) \<Longrightarrow> \<exists>vs. collect rs = Inr vs"
proof (induction rs)
  case Nil
  then show ?case by simp
next
  case (Cons r rs)
  from Cons.prems[of r] obtain v where r: "r = Inr v" by auto
  from Cons.IH Cons.prems obtain vs where "collect rs = Inr vs" by auto
  with r show ?case by simp
qed

lemma sanitizeValue_returns:
  assumes heap_ok: "\<And>a xs. h a = HArray xs \<Longrightarrow> VDate None \<notin> set xs"
  shows "v \<noteq> VDate None \<Longrightarrow> \<exists>r. sanitizeValue h v d m = Inr r"
proof (induction "nat d" arbitrary: v d rule: less_induct)
  case less
  show ?case
  proof (cases "d \<le> 0")
    case True
    then show ?thesis by (simp add: sanitizeValue.simps)
  next
    case pos: False
    show ?thesis
    proof (cases v)
      case (VRef a)
      show ?thesis
      proof (cases "h a")
        case (HArray xs)
        show ?thesis
        proof (cases "length xs > MAX_ARRAY_LENGTH")
          case True
          with pos VRef HArray show ?thesis by (simp add: sanitizeValue.simps)
        next
          case False
          have "\<exists>vs. collect (map (\<lambda>x. sanitizeValue h x (d - 1) m) (take MAX_ARRAY_LENGTH xs)) = Inr vs"
          proof (rule collect_all_Inr)
            fix r assume "r \<in> set (map (\<lambda>x. sanitizeValue h x (d - 1) m) (take MAX_ARRAY_LENGTH xs))"
            then obtain x where x: "x \<in> set xs" and r: "r = sanitizeValue h x (d - 1) m"
              by (auto dest: in_set_takeD)
            from x heap_ok[OF HArray] have "x \<noteq> VDate None" by auto
            moreover have "nat (d - 1) < nat d" using pos by simp
            ultimately show "\<exists>v. r = Inr v" using less.hyps r by blast
          qed
          then obtain vs where "collect (map (\<lambda>x. sanitizeValue h x (d - 1) m) (take MAX_ARRAY_LENGTH xs)) = Inr vs" ..
          with pos VRef HArray False show ?thesis by (simp add: sanitizeValue.simps)
        qed
      next
        case (HObject ps)
        with pos VRef show ?thesis by (simp add: sanitizeValue.simps)
      qed
    next
      case (VDate t)
      with less.prems obtain s where "t = Some s" by (cases t) auto
      with pos VDate show ?thesis by (simp add: sanitizeValue.simps)
    qed (use pos in \<open>simp_all add: sanitizeValue.simps\<close>)
  qed
qed

text \<open>
  Claim C1.  The claim asks that \<open>sanitizeValue\<close> return a result for every input
  value.  On an invalid Date (\<open>new Date(NaN)\<close>), at top level or as an array element,
  \<open>value.toISOString()\<close> throws a RangeError and no result is returned.
\<close>

theorem sanitizeValue_invalid_date_throws:
  "sanitizeValue h (VDate None) MAX_OBJECT_DEPTH MAX_STRING_LENGTH = Inl RangeError
   \<and> sanitizeValue date_heap (VRef 0) MAX_OBJECT_DEPTH MAX_STRING_LENGTH = Inl RangeError"
  by (simp add: sanitizeValue.simps MAX_OBJECT_DEPTH_def MAX_ARRAY_LENGTH_def date_heap_def)

subsection \<open>Key cap of the object sanitizer\<close>

lemma set_prop_keys:
  "set (map fst (set_prop k v es)) = insert k (set (map fst es))"
  by (induction es) auto

lemma set_prop_distinct:
  "distinct (map fst es) \<Longrightarrow> distinct (map fst (set_prop k v es))"
proof (induction es)
  case Nil
  then show ?case by simp
next
  case (Cons e es)
  then show ?case
    using set_prop_keys[of k v es] by (auto simp del: set_map)
qed

lemma set_prop_map_of:
  "map_of (set_prop k v es) k' = (if k' = k then Some v else map_of es k')"
  by (induction es) auto

lemma foldl_set_prop_keys:
  "set (map fst (foldl (\<lambda>res kp. if skip kp then res else set_prop (fst kp) (g kp) res) init keys))
     \<subseteq> set (map fst init) \<union> set (map fst keys)"
proof (induction keys arbitrary: init)
  case Nil
  then show ?case by simp
next
  case (Cons kp keys)
  show ?case
    using Cons.IH[of "if skip kp then init else set_prop (fst kp) (g kp) init"]
      set_prop_keys[of "fst kp" "g kp" init]
    by (cases "skip kp") (auto simp del: set_map)
qed

lemma foldl_set_prop_distinct:
  "distinct (map fst init) \<Longrightarrow>
   distinct (map fst (foldl (\<lambda>res kp. if skip kp then res else set_prop (fst kp) (g kp) res) init keys))"
proof (induction keys arbitrary: init)
  case Nil
  then show ?case by simp
next
  case (Cons kp keys)
  have "distinct (map fst (if skip kp then init else set_prop (fst kp) (g kp) init))"
    using Cons.prems by (simp add: set_prop_distinct)
  from Cons.IH[OF this] show ?case by simp
qed

lemma foldl_set_prop_map_of:
  "k \<notin> set (map fst keys) \<Longrightarrow>
   map_of (foldl (\<lambda>res kp. if skip kp then res else set_prop (fst kp) (g kp) res) init keys) k
     = map_of init k"
proof (induction keys arbitrary: init)
  case Nil
  then show ?case by simp
next
  case (Cons kp keys)
  from Cons.prems have k: "k \<noteq> fst kp" "k \<notin> set (map fst keys)" by auto
  have "map_of (if skip kp then init else set_prop (fst kp) (g kp) init) k = map_of init k"
    using k(1) by (simp add: set_prop_map_of)
  with Cons.IH[OF k(2), of "if skip kp then init else set_prop (fst kp) (g kp) init"]
  show ?case by simp
qed

lemma distinct_keys_length_le:
  assumes "distinct (map fst al)" and "set (map fst al) \<subseteq> S" and "finite S"
  shows "length al \<le> card S"
proof -
  have "length al = card (set (map fst al))"
    using assms(1) distinct_card[of "map fst al"] by simp
  also have "\<dots> \<le> card S"
    using assms(2,3) by (rule card_mono[rotated])
  finally show ?thesis .
qed

text \<open>
  For an object that is expanded (positive depth): the result has pairwise distinct
  keys, at most \<open>MAX_OBJECT_KEYS\<close> of them other than \<open>...\<close>, and when the source has
  more than \<open>MAX_OBJECT_KEYS\<close> keys and none of the first \<open>MAX_OBJECT_KEYS\<close> is itself
  named \<open>...\<close>, the \<open>...\<close> entry holds the count of omitted keys.
\<close>

lemma sanitizeObject_keys:
  assumes pos: "0 < d" and obj: "\<not> not_an_object obj"
  shows "\<exists>al. sanitizeObject h obj d m = SObj al
           \<and> distinct (map fst al)
           \<and> length (filter (\<lambda>kv. fst kv \<noteq> ''...'') al) \<le> MAX_OBJECT_KEYS
           \<and> length al \<le> Suc MAX_OBJECT_KEYS
           \<and> (MAX_OBJECT_KEYS < length (own_props h obj)
                \<and> ''...'' \<notin> set (map fst (take MAX_OBJECT_KEYS (own_props h obj)))
              \<longrightarrow> map_of al ''...''
                    = Some (SStr (''('' @ show_nat (length (own_props h obj) - MAX_OBJECT_KEYS)
                                  @ '' more keys)'')))"
proof -
  define all_keys where "all_keys = own_props h obj"
  define limited where "limited = (length all_keys > MAX_OBJECT_KEYS)"
  define keys where "keys = (if limited then take MAX_OBJECT_KEYS all_keys else all_keys)"
  define result where "result = (if limited
                    then [(''...'', SStr (''('' @ show_nat (length all_keys - MAX_OBJECT_KEYS)
                                          @ '' more keys)''))]
                    else [])"
  define skip where "skip = (\<lambda>kp::string \<times> slot. startsWith (fst kp) ''__'' \<or> startsWith (fst kp) ''$$'')"
  define g where "g = (\<lambda>kp::string \<times> slot. case snd kp of
                        GetterThrows \<Rightarrow> SStr ''[Error reading property]''
                      | Field x \<Rightarrow>
                          (case sanitizeValue h x d m of
                             Inl e \<Rightarrow> SStr ''[Error reading property]''
                           | Inr r \<Rightarrow> r))"
  define al where "al = foldl (\<lambda>res kp. if skip kp then res else set_prop (fst kp) (g kp) res) result keys"
  have eq: "sanitizeObject h obj d m = SObj al"
    using pos obj
    unfolding al_def g_def skip_def result_def keys_def limited_def all_keys_def
    by (simp add: sanitizeObject.simps Let_def)
  have len_keys: "length keys \<le> MAX_OBJECT_KEYS"
    by (simp add: keys_def limited_def)
  have dist: "distinct (map fst al)"
    unfolding al_def by (rule foldl_set_prop_distinct) (simp add: result_def)
  have keys_al: "set (map fst al) \<subseteq> set (map fst result) \<union> set (map fst keys)"
    unfolding al_def by (rule foldl_set_prop_keys)
  have card_keys: "card (set (map fst keys)) \<le> MAX_OBJECT_KEYS"
    using card_length[of "map fst keys"] len_keys by simp
  have data: "length (filter (\<lambda>kv. fst kv \<noteq> ''...'') al) \<le> MAX_OBJECT_KEYS"
  proof -
    have "distinct (map fst (filter (\<lambda>kv. fst kv \<noteq> ''...'') al))"
      using dist by (rule distinct_map_filter)
    moreover have "set (map fst (filter (\<lambda>kv. fst kv \<noteq> ''...'') al)) \<subseteq> set (map fst keys)"
      using keys_al by (auto simp: result_def split: if_splits)
    ultimately have "length (filter (\<lambda>kv. fst kv \<noteq> ''...'') al) \<le> card (set (map fst keys))"
      by (rule distinct_keys_length_le) simp
    with card_keys show ?thesis by simp
  qed
  have total: "length al \<le> Suc MAX_OBJECT_KEYS"
  proof -
    have "set (map fst al) \<subseteq> insert ''...'' (set (map fst keys))"
      using keys_al by (auto simp: result_def split: if_splits)
    with dist have "length al \<le> card (insert ''...'' (set (map fst keys)))"
      by (rule distinct_keys_length_le) simp
    also have "\<dots> \<le> Suc (card (set (map fst keys)))"
      by (simp add: card_insert_if)
    finally show ?thesis using card_keys by simp
  qed
  have counter: "map_of al ''...''
        = Some (SStr (''('' @ show_nat (length all_keys - MAX_OBJECT_KEYS) @ '' more keys)''))"
    if "MAX_OBJECT_KEYS < length all_keys"
      and "''...'' \<notin> set (map fst (take MAX_OBJECT_KEYS all_keys))"
  proof -
    from that have "''...'' \<notin> set (map fst keys)" and lim: limited
      by (simp_all add: keys_def limited_def)
    then have "map_of al ''...'' = map_of result ''...''"
      unfolding al_def by (intro foldl_set_prop_map_of)
    with lim show ?thesis by (simp add: result_def)
  qed
  show ?thesis
    using eq dist data total counter unfolding all_keys_def by blast
qed

text \<open>
  Claim C5.  The claim asks that for \<open>K > MAX_OBJECT_KEYS\<close> the \<open>...\<close> entry record
  \<open>K - MAX_OBJECT_KEYS\<close>.  For the 21-key object whose first key is named \<open>...\<close> the
  counter written before the loop is overwritten by that key's own value: the result
  has 20 entries and its \<open>...\<close> entry is the number 0, not \<open>(1 more keys)\<close>.
\<close>

theorem sanitizeObject_counter_overwritten:
  "length (own_props dots_heap (VRef 0)) = 21
   \<and> sanitizeObject dots_heap (VRef 0) MAX_OBJECT_DEPTH MAX_STRING_LENGTH
       = SObj [(''...'', SNum 0), (''k1'', SNum 1), (''k2'', SNum 2), (''k3'', SNum 3),
               (''k4'', SNum 4), (''k5'', SNum 5), (''k6'', SNum 6), (''k7'', SNum 7),
               (''k8'', SNum 8), (''k9'', SNum 9), (''k10'', SNum 10), (''k11'', SNum 11),
               (''k12'', SNum 12), (''k13'', SNum 13), (''k14'', SNum 14), (''k15'', SNum 15),
               (''k16'', SNum 16), (''k17'', SNum 17), (''k18'', SNum 18), (''k19'', SNum 19)]"
  by code_simp

section \<open>Properties of the capture buffers\<close>

subsection \<open>Ring buffers\<close>

text \<open>
  A log that is only ever extended by \<open>push\<close> followed by the \<open>shift\<close> test holds the
  newest \<open>cap\<close> entries: after \<open>N > cap\<close> appends its length is \<open>cap\<close> and its first
  element is the entry appended as number \<open>N - cap + 1\<close>.
\<close>

lemma push_shift_drop:
  "length log \<le> cap \<Longrightarrow> push_shift cap log e = drop (Suc (length log) - cap) (log @ [e])"
proof (cases "length log < cap")
  case True
  then show ?thesis by (simp add: push_shift_def Let_def)
next
  case False
  assume "length log \<le> cap"
  with False have eq: "length log = cap" by simp
  then have k: "Suc (length log) - cap = Suc 0" by simp
  have "tl (log @ [e]) = drop (Suc 0) (log @ [e])"
    by (simp only: drop_Suc drop_0)
  moreover have "push_shift cap log e = tl (log @ [e])"
    using eq by (simp add: push_shift_def Let_def)
  ultimately show ?thesis by (simp only: k)
qed

lemma foldl_push_shift:
  "length log \<le> cap \<Longrightarrow>
   foldl (push_shift cap) log es = drop (length log + length es - cap) (log @ es)"
proof (induction es arbitrary: log)
  case Nil
  then show ?case by simp
next
  case (Cons e es)
  let ?k = "Suc (length log) - cap"
  let ?log' = "push_shift cap log e"
  have step: "?log' = drop ?k (log @ [e])"
    using Cons.prems by (rule push_shift_drop)
  then have len: "length ?log' = Suc (length log) - ?k" by simp
  then have le: "length ?log' \<le> cap" using Cons.prems by simp
  have "foldl (push_shift cap) (log) (e # es) = foldl (push_shift cap) ?log' es" by simp
  also have "\<dots> = drop (length ?log' + length es - cap) (?log' @ es)"
    using le by (rule Cons.IH)
  also have "?log' @ es = drop ?k (log @ e # es)"
  proof -
    have "?k - length (log @ [e]) = 0" by simp
    then have "drop ?k ((log @ [e]) @ es) = drop ?k (log @ [e]) @ es"
      by (simp only: drop_append drop_0)
    with step show ?thesis by simp
  qed
  also have "drop (length ?log' + length es - cap) (drop ?k (log @ e # es))
      = drop (length log + length (e # es) - cap) (log @ e # es)"
  proof -
    have "length ?log' + length es - cap + ?k = length log + length (e # es) - cap"
      using Cons.prems unfolding len by simp
    then show ?thesis by (simp only: drop_drop)
  qed
  finally show ?case .
qed

lemma ring_buffer_after:
  assumes "length es > cap"
  shows "length (foldl (push_shift cap) [] es) = cap"
    and "cap > 0 \<Longrightarrow> hd (foldl (push_shift cap) [] es) = es ! (length es - cap)"
  using assms by (simp_all add: foldl_push_shift hd_drop_conv_nth)

lemma foldl_map_push:
  "foldl (\<lambda>log ev. push_shift cap log (f ev)) log evs
     = foldl (push_shift cap) log (map f evs)"
  by (induction evs arbitrary: log) simp_all

text \<open>
  The always-on console capture evicts on each of its three append paths, so it has the
  ring-buffer property for every mix of captured calls, error events and rejections.
\<close>

lemma always_on_console_ring:
  assumes "length evs > MAX_CONSOLE_ENTRIES"
  shows "length (foldl (console_capture href) [] evs) = MAX_CONSOLE_ENTRIES
       \<and> hd (foldl (console_capture href) [] evs)
           = console_entry_of href (evs ! (length evs - MAX_CONSOLE_ENTRIES))"
proof -
  have eq: "foldl (console_capture href) [] evs
      = foldl (push_shift MAX_CONSOLE_ENTRIES) [] (map (console_entry_of href) evs)"
    unfolding console_capture_def by (rule foldl_map_push)
  have pos: "MAX_CONSOLE_ENTRIES > 0" by (simp add: MAX_CONSOLE_ENTRIES_def)
  from assms have len: "length (map (console_entry_of href) evs) > MAX_CONSOLE_ENTRIES" by simp
  show ?thesis
    using ring_buffer_after[OF len] pos assms by (simp add: eq)
qed

text \<open>
  So does the console log of a recording session as long as entries arrive through
  \<open>captureConsole\<close>, that is through the patched console methods.
\<close>

lemma console_calls_fold:
  "isRecording (session p) \<Longrightarrow>
   arrays (run p (map (\<lambda>c. (fst c, ConsoleCall (fst (snd c)) (snd (snd c)) None)) cs))
          (consoleLog (session p))
     = foldl (push_shift MAX_ENTRIES) (arrays p (consoleLog (session p)))
         (map (\<lambda>c. Console \<lparr> ce_type = fst (snd c), ce_message = take 2000 (snd (snd c)),
                                ce_stack = None, ce_timestamp = fst c,
                                ce_source = None, ce_line = None \<rparr>) cs)"
proof (induction cs arbitrary: p)
  case Nil
  then show ?case by (simp add: run_def)
next
  case (Cons c cs)
  let ?p' = "captureConsole (fst c) (fst (snd c)) (snd (snd c)) None p"
  have s: "session ?p' = session p"
    by (simp add: captureConsole_def push_and_shift_def)
  have a: "arrays ?p' (consoleLog (session p))
      = push_shift MAX_ENTRIES (arrays p (consoleLog (session p)))
          (Console \<lparr> ce_type = fst (snd c), ce_message = take 2000 (snd (snd c)),
                      ce_stack = None, ce_timestamp = fst c,
                      ce_source = None, ce_line = None \<rparr>)"
    using Cons.prems by (simp add: captureConsole_def push_and_shift_def)
  have "run p (map (\<lambda>c. (fst c, ConsoleCall (fst (snd c)) (snd (snd c)) None)) (c # cs))
      = run ?p' (map (\<lambda>c. (fst c, ConsoleCall (fst (snd c)) (snd (snd c)) None)) cs)"
    by (simp add: run_def)
  with Cons.IH[of ?p'] s a Cons.prems show ?case by simp
qed

lemma console_calls_ring:
  assumes "isRecording (session p)"
    and "length (arrays p (consoleLog (session p))) \<le> MAX_ENTRIES"
    and "length (arrays p (consoleLog (session p))) + length cs > MAX_ENTRIES"
  shows "length (arrays (run p (map (\<lambda>c. (fst c, ConsoleCall (fst (snd c)) (snd (snd c)) None)) cs))
                  (consoleLog (session p))) = MAX_ENTRIES"
  using assms by (simp add: console_calls_fold foldl_push_shift)

text \<open>
  In the session recorder only \<open>captureConsole\<close> evicts from the console log.  The
  \<open>error\<close> listener pushes without the \<open>shift\<close> test, so each error event makes the
  console log one longer.
\<close>

lemma window_errors_accumulate:
  "isRecording (session p) \<Longrightarrow>
   length (arrays (run p (replicate n (t, WindowError msg stk src line))) (consoleLog (session p)))
     = length (arrays p (consoleLog (session p))) + n"
proof (induction n arbitrary: p)
  case 0
  then show ?case by (simp add: run_def)
next
  case (Suc n)
  let ?p' = "on_window_error t msg stk src line p"
  have s: "session ?p' = session p"
    by (simp add: on_window_error_def push_def)
  have l: "length (arrays ?p' (consoleLog (session p))) = Suc (length (arrays p (consoleLog (session p))))"
    using Suc.prems by (simp add: on_window_error_def push_def)
  have "run p (replicate (Suc n) (t, WindowError msg stk src line))
      = run ?p' (replicate n (t, WindowError msg stk src line))"
    by (simp add: run_def)
  with Suc.IH[of ?p'] s l Suc.prems show ?case by simp
qed

lemma start_state:
  "isRecording (session (snd (AI_CONTEXT_START_SESSION now sid stk p)))"
  "consoleLog (session (snd (AI_CONTEXT_START_SESSION now sid stk p))) = fresh p"
  "length (arrays (snd (AI_CONTEXT_START_SESSION now sid stk p)) (fresh p)) = 1"
  by (simp_all add: AI_CONTEXT_START_SESSION_def Let_def captureConsole_def push_and_shift_def
      push_shift_def MAX_ENTRIES_def)

text \<open>
  Claim C3.  The claim asks that every bounded log hold exactly \<open>cap\<close> entries after more
  than \<open>cap\<close> appends through any append path.  After \<open>start\<close> (whose own
  \<open>console.info\<close> line goes through the patched console and is the first entry) and 250
  \<open>window\<close> error events, the session's console log holds all 251 entries, although
  its cap is \<open>MAX_ENTRIES = 200\<close>.
\<close>

theorem session_error_path_unbounded:
  "length (arrays (run injected ((10, StartSession None None)
                     # replicate 250 (11, WindowError ''boom'' None None None)))
             (consoleLog (session (run injected [(10, StartSession None None)])))) = 251
   \<and> MAX_ENTRIES = 200"
proof -
  let ?p = "snd (AI_CONTEXT_START_SESSION 10 None None injected)"
  have r: "run injected ((10, StartSession None None)
                           # replicate 250 (11, WindowError ''boom'' None None None))
      = run ?p (replicate 250 (11, WindowError ''boom'' None None None))"
    by (simp add: run_def)
  have r1: "run injected [(10, StartSession None None)] = ?p"
    by (simp add: run_def)
  have c: "consoleLog (session ?p) = fresh injected" by (rule start_state)
  show ?thesis
    using window_errors_accumulate[of ?p 250 11 "''boom''" None None None]
      start_state(1,3)[of 10 None None injected]
    by (simp add: r r1 c MAX_ENTRIES_def)
qed

subsection \<open>The failed flag of network entries\<close>

text \<open>
  Claim C7.  The claim asks that \<open>failed\<close> be true exactly for a transport error, status
  0 or a status of at least 400.  While a session records, a \<open>fetch\<close> that resolves with
  status 304 is recorded with \<open>failed\<close> true, although there is no transport error and
  the status is neither 0 nor at least 400.
\<close>

theorem fetch_not_modified_recorded_failed:
  "entries_of (run fetch_pending [(15, FetchSettle 1 (Resolved 304))])
              (networkLog (session fetch_pending))
     = [\<lparr> ne_url = ''/api/items'', ne_method = ''GET'', ne_status = 304,
          ne_requestBody = None, ne_responseBody = None, ne_duration = 4,
          ne_timestamp = 11, ne_failed = True, ne_error = None \<rparr>]"
  by code_simp

text \<open>
  How each capture path computes the flag.  The XHR listeners test the status against 0
  and 400.  The \<open>fetch\<close> wrappers take \<open>!response.ok\<close>, which is true for every status
  outside 200 to 299, and true with status 0 when the promise rejects.  The
  PerformanceObserver of the always-on capture records \<open>failed\<close> false whatever the
  status is.
\<close>

lemma failed_flag:
  "ne_failed (xhr_loadend_entry now xhr l status txt) = (status = 0 \<or> 400 \<le> status)
   \<and> ne_failed (fetch_then_entry now c status) = (status < 200 \<or> 299 < status)
   \<and> ne_failed (fetch_catch_entry now c msg) \<and> ne_status (fetch_catch_entry now c msg) = 0
   \<and> n_failed (always_on_xhr_loadend url method status statusText duration now)
       = (status = 0 \<or> 400 \<le> status)
   \<and> n_failed (always_on_fetch_then url method status statusText duration now)
       = (status < 200 \<or> 299 < status)
   \<and> n_failed (always_on_fetch_catch url method msg duration now)
   \<and> n_status (always_on_fetch_catch url method msg duration now) = 0
   \<and> r_failed (observer_entry name responseStatus duration initiatorType now) = False"
  by (auto simp: xhr_loadend_entry_def fetch_then_entry_def fetch_catch_entry_def
        always_on_xhr_loadend_def always_on_fetch_then_def always_on_fetch_catch_def
        observer_entry_def response_ok_def)

subsection \<open>What stop freezes\<close>





















subsection \<open>The object store\<close>













lemma take_whole_length: "take (length os) xs = os \<Longrightarrow> length os \<le> length xs"
  by (metis length_take min.cobounded1)






lemma kept_from_read:
  "kept_from os p \<Longrightarrow> kept_from os (p\<lparr> reads := reads p @ [(rid, length (objects p))] \<rparr>)"
  using take_whole_length[of os "objects p"] by (simp add: kept_from_def)











text \<open>
  A request in flight is not the only way.  A \<open>loadend\<close> listener stays on its
  \<open>XMLHttpRequest\<close> object and does not look at \<open>isRecording\<close>: an object that was sent
  and answered while recording, and is opened and sent again after \<open>stop()\<close>, pushes a
  second entry into the returned network log when that later request ends, with the
  request body and the start time of the first one.
\<close>

lemma stop_xhr_reuse_appends:
  "fetches (snd (AI_CONTEXT_STOP_SESSION 14 None xhr_done)) = []
   \<and> entries_of (snd (AI_CONTEXT_STOP_SESSION 14 None xhr_done))
                (ss_networkLog (fst (AI_CONTEXT_STOP_SESSION 14 None xhr_done)))
       = [\<lparr> ne_url = ''/api/items'', ne_method = ''GET'', ne_status = 200,
            ne_requestBody = None, ne_responseBody = Some ''[]'', ne_duration = 1,
            ne_timestamp = 12, ne_failed = False, ne_error = None \<rparr>]
   \<and> entries_of (run (snd (AI_CONTEXT_STOP_SESSION 14 None xhr_done))
                      [(15, XhrOpen 1 (Some ''post'') (Some ''/api/other'')),
                       (16, XhrSend 1 (Some (StringBody ''x=1''))),
                       (17, XhrLoadend 1 201 ''ok'')])
                (ss_networkLog (fst (AI_CONTEXT_STOP_SESSION 14 None xhr_done)))
       = [\<lparr> ne_url = ''/api/items'', ne_method = ''GET'', ne_status = 200,
            ne_requestBody = None, ne_responseBody = Some ''[]'', ne_duration = 1,
            ne_timestamp = 12, ne_failed = False, ne_error = None \<rparr>,
          \<lparr> ne_url = ''/api/other'', ne_method = ''POST'', ne_status = 201,
            ne_requestBody = None, ne_responseBody = Some ''ok'', ne_duration = 5,
            ne_timestamp = 12, ne_failed = False, ne_error = None \<rparr>]"
  by code_simp

text \<open>
  And an entry of the returned network log can still be written to: the read of the
  cloned response, when it settles after \<open>stop()\<close>, fills in the response body.
\<close>

lemma stop_body_read_fills_entry:
  "entries_of (snd (AI_CONTEXT_STOP_SESSION 13 None body_pending))
              (ss_networkLog (fst (AI_CONTEXT_STOP_SESSION 13 None body_pending)))
     = [\<lparr> ne_url = ''/api/items'', ne_method = ''GET'', ne_status = 200,
          ne_requestBody = None, ne_responseBody = None, ne_duration = 1,
          ne_timestamp = 11, ne_failed = False, ne_error = None \<rparr>]
   \<and> entries_of (run (snd (AI_CONTEXT_STOP_SESSION 13 None body_pending))
                      [(15, FetchBody 1 (Some ''[]''))])
                (ss_networkLog (fst (AI_CONTEXT_STOP_SESSION 13 None body_pending)))
       = [\<lparr> ne_url = ''/api/items'', ne_method = ''GET'', ne_status = 200,
            ne_requestBody = None, ne_responseBody = Some ''[]'', ne_duration = 1,
            ne_timestamp = 11, ne_failed = False, ne_error = None \<rparr>]"
  by code_simp



section \<open>Properties of the interaction recorder\<close>

text \<open>
  The input listener masks every non-empty value of a control whose name or id matches
  its pattern, and still records the interaction.
\<close>

lemma input_masks_sensitive:
  assumes "f_type t \<noteq> ''password''"
    and "test_words input_pattern (f_name t) \<or> test_words input_pattern (f_id t)"
    and "f_value t \<noteq> []"
  shows "\<exists>i. input_interaction now t = Some i \<and> i_type i = ''input''
             \<and> i_value i = Some ''[masked]''"
proof -
  have "(if length (f_value t) > 100 then take 97 (f_value t) @ ''...'' else f_value t) \<noteq> []"
    using assms(3) by simp
  with assms(2) have "input_value t = ''[masked]''"
    by (simp add: input_value_def Let_def)
  with assms(1) show ?thesis
    by (simp add: input_interaction_def formatInteraction_def)
qed

text \<open>
  The example of the specification: an input named \<open>email\<close> holding \<open>a@b.com\<close> is
  recorded with the value \<open>[masked]\<close>.
\<close>

lemma input_email_example:
  "input_interaction now email_field
     = Some \<lparr> i_type = ''input'', i_target = ''#contact'', i_timestamp = Some now,
              i_label = None, i_value = Some ''[masked]'', i_formData = None,
              i_action = None \<rparr>"
proof -
  have "test_words input_pattern (f_name email_field)" by code_simp
  then have "input_value email_field = ''[masked]''"
    by (simp add: input_value_def Let_def email_field_def)
  then show ?thesis
    by (simp add: input_interaction_def formatInteraction_def email_field_def)
qed

text \<open>The submit listener masks by its own, shorter pattern, tested on the name only.\<close>

lemma submit_masks_sensitive:
  assumes "test_words submit_pattern (f_name input)" and "f_value input \<noteq> []"
  shows "submit_value input = ''[masked]''"
  using assms by (simp add: submit_value_def Let_def)

text \<open>
  Claim C8.  The claim asks that every captured form field whose name matches
  \<open>email|phone|ssn|credit|card|cvv|pin\<close> be recorded as \<open>[masked]\<close>.  The submit listener
  tests \<open>email|phone|ssn|credit|card\<close> only: submitting a form with a field named \<open>cvv\<close>
  that holds \<open>123\<close> records \<open>formData = {cvv: "123"}\<close>.
\<close>

theorem submit_leaves_cvv_unmasked:
  "test_words input_pattern (f_name cvv_field)
   \<and> arrays (on_submit 12 checkout_form (run injected [(10, StartSession None None)]))
            (interactions (session (run injected [(10, StartSession None None)])))
       = [Interaction \<lparr> i_type = ''submit'', i_target = ''form'', i_timestamp = Some 12,
                         i_label = None, i_value = None,
                         i_formData = Some [(''cvv'', ''123'')],
                         i_action = Some ''https://shop.example/checkout'' \<rparr>]"
  by code_simp

section \<open>Properties of the developer context\<close>

text \<open>
  Claim C9, as stated: a source file that introspection detected is never overridden by
  the developer-declared one.  With a detected file and a declared \<open>file\<close>, the declared
  one replaces the detected one (while the detected name is kept).
\<close>

theorem developer_file_overrides_counterexample:
  "apply_developer_context (JObject (Some ''Declared'') (Some ''src/UserCard.tsx''))
                           (Some detected_component)
     = (Some (JObject (Some ''Declared'') (Some ''src/UserCard.tsx'')),
        Some \<lparr> c_name = Some ''UserCard'', c_props = None, c_state = None,
               c_file = Some ''src/UserCard.tsx'' \<rparr>)
   \<and> c_file detected_component = Some ''/home/dev/app/src/UserCard.jsx''"
  by (simp add: apply_developer_context_def detected_component_def truthy_def)

text \<open>
  Claim C9, amended.  When the attribute holds a JSON object, its \<open>component\<close> fills in
  the component name only where introspection left none, so a detected name is never
  overridden; its \<open>file\<close>, whenever present and non-empty, replaces the source file, a
  detected one included; props and state are untouched.  Malformed JSON changes nothing
  and leaves the developer context \<open>null\<close>.
\<close>

theorem developer_context_merge:
  "apply_developer_context (JObject c f) (Some ci)
     = (Some (JObject c f),
        Some (ci\<lparr> c_name := (if truthy c \<and> \<not> truthy (c_name ci) then c else c_name ci),
                  c_file := (if truthy f then f else c_file ci) \<rparr>))
   \<and> apply_developer_context SyntaxError found = (None, found)"
  by (simp add: apply_developer_context_def Let_def)

section \<open>Properties of the element locator\<close>

text \<open>\<open>paths_of\<close> lists exactly the elements of the document.\<close>

lemma paths_enumerate:
  "p \<in> set (paths_of e) \<longleftrightarrow> node_at e p \<noteq> None"
  "p \<in> set (paths_from k es)
     \<longleftrightarrow> (\<exists>i q. p = (k + i) # q \<and> i < length es \<and> node_at (es ! i) q \<noteq> None)"
proof (induction e and k es arbitrary: p and p rule: paths_of_paths_from.induct)
  case (1 t i c ks)
  show ?case
  proof (cases p)
    case Nil
    then show ?thesis by simp
  next
    case (Cons j q)
    then show ?thesis using "1.IH"[of p] by auto
  qed
next
  case (2 k)
  show ?case by simp
next
  case (3 k e es)
  have "p \<in> set (paths_from k (e # es))
      \<longleftrightarrow> (\<exists>q. p = k # q \<and> node_at e q \<noteq> None)
          \<or> (\<exists>i q. p = (Suc k + i) # q \<and> i < length es \<and> node_at (es ! i) q \<noteq> None)"
    using "3.IH"(1) "3.IH"(2)[of p] by auto
  also have "\<dots> \<longleftrightarrow> (\<exists>i q. p = (k + i) # q \<and> i < length (e # es)
                             \<and> node_at ((e # es) ! i) q \<noteq> None)"
  proof
    assume "(\<exists>q. p = k # q \<and> node_at e q \<noteq> None)
          \<or> (\<exists>i q. p = (Suc k + i) # q \<and> i < length es \<and> node_at (es ! i) q \<noteq> None)"
    then show "\<exists>i q. p = (k + i) # q \<and> i < length (e # es) \<and> node_at ((e # es) ! i) q \<noteq> None"
    proof
      assume "\<exists>q. p = k # q \<and> node_at e q \<noteq> None"
      then obtain q where "p = (k + 0) # q" "node_at ((e # es) ! 0) q \<noteq> None" by auto
      then show ?thesis by (intro exI[of _ 0] exI[of _ q]) simp
    next
      assume "\<exists>i q. p = (Suc k + i) # q \<and> i < length es \<and> node_at (es ! i) q \<noteq> None"
      then obtain i q where "p = (k + Suc i) # q" "Suc i < length (e # es)"
        "node_at ((e # es) ! Suc i) q \<noteq> None" by auto
      then show ?thesis by blast
    qed
  next
    assume "\<exists>i q. p = (k + i) # q \<and> i < length (e # es) \<and> node_at ((e # es) ! i) q \<noteq> None"
    then obtain i q where h: "p = (k + i) # q" "i < length (e # es)"
      "node_at ((e # es) ! i) q \<noteq> None" by blast
    show "(\<exists>q. p = k # q \<and> node_at e q \<noteq> None)
          \<or> (\<exists>i q. p = (Suc k + i) # q \<and> i < length es \<and> node_at (es ! i) q \<noteq> None)"
    proof (cases i)
      case 0
      with h show ?thesis by simp
    next
      case (Suc j)
      with h have "p = (Suc k + j) # q" "j < length es" "node_at (es ! j) q \<noteq> None" by simp_all
      then show ?thesis by blast
    qed
  qed
  finally show ?case .
qed










end
